theory Spec2Isabelle
  imports Main "HOL-Library.AList"
begin

section \<open>The Python primitives the program relies on\<close>

text \<open>
  Python strings are modelled as \<^typ>\<open>string\<close>: a \<^typ>\<open>char\<close> is one code point in the
  range 0..255 (Latin-1). Every literal of the program and every square name lies in that
  range. A character that \<open>chr\<close> would build above it cannot be written in the model; that
  outcome is kept apart from the Python exceptions as \<open>OutsideLatin1\<close>. Text typed at the
  console with a character above the range is outside the model too; there \<open>str.lower\<close>
  can return two characters (for U+0130), on which \<open>ord\<close> raises TypeError.
\<close>

datatype error =
  IndexError | ValueError | KeyError | OverflowError | InvalidStateError | OutsideLatin1

text \<open>\<open>str.lower\<close> on Latin-1: A..Z and the accented capitals (all of 192..222 but the
  multiplication sign 215) move up by 32, everything else stays.\<close>

definition py_lower_char :: "char \<Rightarrow> char" where
  "py_lower_char c =
     (let n = (of_char c :: nat)
      in if (65 \<le> n \<and> n \<le> 90) \<or> (192 \<le> n \<and> n \<le> 222 \<and> n \<noteq> 215)
         then char_of (n + 32) else c)"

definition py_lower :: "string \<Rightarrow> string" where
  "py_lower s = map py_lower_char s"

text \<open>\<open>chr\<close>: OverflowError for an argument that does not fit a C int (32 bits),
  ValueError for any other outside \<open>range(0x110000)\<close>.\<close>

definition py_chr :: "int \<Rightarrow> error + char" where
  "py_chr i =
     (if i < - 2147483648 \<or> 2147483647 < i then Inl OverflowError
      else if 0 \<le> i \<and> i < 256 then Inr (char_of (nat i))
      else if 0 \<le> i \<and> i < 1114112 then Inl OutsideLatin1
      else Inl ValueError)"

text \<open>
  \<open>str\<close> of an integer: its decimal digits, with a minus sign when negative. CPython
  (3.11 and later, and the maintenance releases of older versions) refuses to convert
  between \<open>int\<close> and \<open>str\<close> beyond \<open>sys.get_int_max_str_digits()\<close> digits and
  raises ValueError; the limit is modelled at its default, 4300.
\<close>

definition int_max_str_digits :: int where
  "int_max_str_digits = 4300"

text \<open>\<open>len\<close>, as the integer it is in Python.\<close>

fun py_len :: "'a list \<Rightarrow> int" where
  "py_len [] = 0"
| "py_len (x # xs) = 1 + py_len xs"

definition digit_char :: "nat \<Rightarrow> char" where
  "digit_char d = char_of (48 + d)"

function py_str_nat :: "nat \<Rightarrow> string" where
  "py_str_nat n =
     (if n < 10 then [digit_char n] else py_str_nat (n div 10) @ [digit_char (n mod 10)])"
  by pat_completeness auto
termination
  by (relation "measure id") auto

declare py_str_nat.simps [simp del]

definition py_str :: "int \<Rightarrow> error + string" where
  "py_str i =
     (let digits = py_str_nat (nat \<bar>i\<bar>)
      in if py_len digits > int_max_str_digits then Inl ValueError
         else Inr (if i < 0 then CHR ''-'' # digits else digits))"

text \<open>
  \<open>int\<close> of a string, base 10: surrounding whitespace is dropped (tab to carriage
  return, space, and the Latin-1 characters 133 and 160), one sign is allowed, then
  digits, where a single underscore may stand between two digits. Anything else is a
  ValueError, and so is a literal of more than 4300 digits (leading zeros count,
  underscores do not).
\<close>

definition py_isspace :: "char \<Rightarrow> bool" where
  "py_isspace c = ((of_char c :: nat) \<in> {9, 10, 11, 12, 13, 32, 133, 160})"

definition py_strip :: "string \<Rightarrow> string" where
  "py_strip s = rev (dropWhile py_isspace (rev (dropWhile py_isspace s)))"

definition is_digit :: "char \<Rightarrow> bool" where
  "is_digit c = (48 \<le> (of_char c :: nat) \<and> (of_char c :: nat) \<le> 57)"

definition digit_val :: "char \<Rightarrow> int" where
  "digit_val c = int (of_char c) - 48"

fun py_digits :: "int \<Rightarrow> string \<Rightarrow> int option" where
  "py_digits acc [] = Some acc"
| "py_digits acc [c] = (if is_digit c then Some (10 * acc + digit_val c) else None)"
| "py_digits acc (c # d # ds) =
     (if is_digit c then py_digits (10 * acc + digit_val c) (d # ds)
      else if c = CHR ''_'' \<and> is_digit d then py_digits (10 * acc + digit_val d) ds
      else None)"

definition py_number :: "string \<Rightarrow> int option" where
  "py_number s =
     (case s of [] \<Rightarrow> None
      | c # cs \<Rightarrow> if is_digit c then py_digits (digit_val c) cs else None)"

definition py_int :: "string \<Rightarrow> error + int" where
  "py_int s =
     (let t = py_strip s;
          neg = (case t of [] \<Rightarrow> False | c # _ \<Rightarrow> c = CHR ''-'');
          body = (case t of [] \<Rightarrow> []
                  | c # cs \<Rightarrow> if c = CHR ''-'' \<or> c = CHR ''+'' then cs else t)
      in case py_number body of
           None \<Rightarrow> Inl ValueError
         | Some n \<Rightarrow>
             if py_len (filter is_digit body) > int_max_str_digits then Inl ValueError
             else Inr (if neg then - n else n))"

section \<open>Coordinates (basic\_chess.py)\<close>

text \<open>\<open>ChessGame.coord_to_index\<close>: \<open>coord_str[0]\<close> raises IndexError on the empty string,
  \<open>int(coord_str[1:])\<close> raises ValueError; nothing checks the range of either part.\<close>

definition coord_to_index :: "string \<Rightarrow> error + (int \<times> int)" where
  "coord_to_index coord_str =
     (case coord_str of
        [] \<Rightarrow> Inl IndexError
      | c # rest \<Rightarrow>
          (let col = int (of_char (py_lower_char c)) - 97
           in case py_int rest of
                Inl e \<Rightarrow> Inl e
              | Inr n \<Rightarrow> Inr (col, 8 - n)))"

text \<open>\<open>ChessGame.index_to_coord\<close>.\<close>

definition index_to_coord :: "int \<Rightarrow> int \<Rightarrow> error + string" where
  "index_to_coord col row =
     (let letter_a_ascii = 97;
          col_ascii = col + letter_a_ascii
      in case py_chr col_ascii of
           Inl e \<Rightarrow> Inl e
         | Inr col_letter \<Rightarrow>
             (let row' = 7 - row
              in case py_str (row' + 1) of
                   Inl e \<Rightarrow> Inl e
                 | Inr row_num \<Rightarrow> Inr (col_letter # row_num)))"


text \<open>The 64 squares in notation: a file letter a..h followed by a rank digit 1..8.\<close>

definition all_squares :: "string list" where
  "all_squares = concat (map (\<lambda>f. map (\<lambda>r. [f, r]) ''12345678'') ''abcdefgh'')"

definition on_board :: "int \<Rightarrow> int \<Rightarrow> bool" where
  "on_board col row = (0 \<le> col \<and> col < 8 \<and> 0 \<le> row \<and> row < 8)"

section \<open>Pieces and the game (piece\_classes.py, basic\_chess.py)\<close>

text \<open>
  The six piece classes share their fields, so a piece is one record tagged with its class.
  Only \<open>Pawn.__init__\<close> creates \<open>_init_move\<close>; \<open>make_move\<close> assigns it on whatever piece
  moves, so the field is optional: \<open>None\<close> while the attribute does not exist.
  Colours, the turn and the game state are the strings the program compares.
\<close>

datatype kind = Pawn | Rook | Knight | Bishop | Queen | King

record piece =
  kind :: kind
  color :: string
  position :: string
  init_move :: "bool option"

text \<open>
  \<open>_init_pos\<close> is a dict from notation to piece object. It is an association list in
  insertion order: \<open>map_of\<close> reads it, \<open>AList.delete\<close> is \<open>pop\<close> and \<open>AList.update\<close>
  is item assignment. No code path stores \<open>None\<close> as a value. The glyph table
  \<open>_pieces\<close> is only read when printing and is left out.
\<close>

record game =
  game_state :: string
  player_turn :: string
  init_pos :: "(string \<times> piece) list"

definition new_Pawn :: "string \<Rightarrow> string \<Rightarrow> piece" where
  "new_Pawn c p = \<lparr>kind = Pawn, color = c, position = p, init_move = Some True\<rparr>"

definition new_piece :: "kind \<Rightarrow> string \<Rightarrow> string \<Rightarrow> piece" where
  "new_piece k c p = \<lparr>kind = k, color = c, position = p, init_move = None\<rparr>"

text \<open>\<open>ChessGame.__init__\<close> with \<open>_board_start\<close>, entries in the order of the dict literal.\<close>

definition ChessGame :: game where
  "ChessGame =
     \<lparr>game_state = ''UNFINISHED'',
      player_turn = ''WHITE'',
      init_pos =
        [(''a8'', new_piece Rook ''BLACK'' ''a8''), (''b8'', new_piece Knight ''BLACK'' ''b8''),
         (''c8'', new_piece Bishop ''BLACK'' ''c8''), (''d8'', new_piece King ''BLACK'' ''d8''),
         (''e8'', new_piece Queen ''BLACK'' ''e8''), (''f8'', new_piece Bishop ''BLACK'' ''f8''),
         (''g8'', new_piece Knight ''BLACK'' ''g8''), (''h8'', new_piece Rook ''BLACK'' ''h8''),
         (''a7'', new_Pawn ''BLACK'' ''a7''), (''b7'', new_Pawn ''BLACK'' ''b7''),
         (''c7'', new_Pawn ''BLACK'' ''c7''), (''d7'', new_Pawn ''BLACK'' ''d7''),
         (''e7'', new_Pawn ''BLACK'' ''e7''), (''f7'', new_Pawn ''BLACK'' ''f7''),
         (''g7'', new_Pawn ''BLACK'' ''g7''), (''h7'', new_Pawn ''BLACK'' ''h7''),
         (''a2'', new_Pawn ''WHITE'' ''a2''), (''b2'', new_Pawn ''WHITE'' ''b2''),
         (''c2'', new_Pawn ''WHITE'' ''c2''), (''d2'', new_Pawn ''WHITE'' ''d2''),
         (''e2'', new_Pawn ''WHITE'' ''e2''), (''f2'', new_Pawn ''WHITE'' ''f2''),
         (''g2'', new_Pawn ''WHITE'' ''g2''), (''h2'', new_Pawn ''WHITE'' ''h2''),
         (''a1'', new_piece Rook ''WHITE'' ''a1''), (''b1'', new_piece Knight ''WHITE'' ''b1''),
         (''c1'', new_piece Bishop ''WHITE'' ''c1''), (''d1'', new_piece Queen ''WHITE'' ''d1''),
         (''e1'', new_piece King ''WHITE'' ''e1''), (''f1'', new_piece Bishop ''WHITE'' ''f1''),
         (''g1'', new_piece Knight ''WHITE'' ''g1''), (''h1'', new_piece Rook ''WHITE'' ''h1'')]\<rparr>"

text \<open>\<open>get_piece\<close> takes a tuple or a string; the two branches are two functions here.\<close>

definition get_piece_notation :: "game \<Rightarrow> string \<Rightarrow> piece option" where
  "get_piece_notation g pos = map_of (init_pos g) (py_lower pos)"

definition get_piece :: "game \<Rightarrow> int \<times> int \<Rightarrow> error + piece option" where
  "get_piece g pos =
     (case index_to_coord (fst pos) (snd pos) of
        Inl e \<Rightarrow> Inl e
      | Inr p \<Rightarrow> Inr (get_piece_notation g p))"

definition is_square_open :: "game \<Rightarrow> string \<Rightarrow> bool" where
  "is_square_open g position' =
     (let position' = py_lower position' in map_of (init_pos g) position' = None)"

definition is_opponent :: "game \<Rightarrow> string \<Rightarrow> string \<Rightarrow> bool" where
  "is_opponent g position' color' =
     (case get_piece_notation g position' of
        None \<Rightarrow> False
      | Some piece \<Rightarrow> color piece \<noteq> color')"

subsection \<open>Pawn\<close>

text \<open>The forward block of \<open>Pawn.valid_moves\<close>: the double step sits inside the bounds
  test of the single step and looks only at its own destination.\<close>

definition Pawn_forward :: "game \<Rightarrow> piece \<Rightarrow> int \<Rightarrow> int \<Rightarrow> int \<Rightarrow> error + string list" where
  "Pawn_forward g self start_col start_row direction =
     (let forward_reg = start_row - direction
      in if 8 > forward_reg \<and> forward_reg \<ge> 0 then
           (case index_to_coord start_col forward_reg of
              Inl e \<Rightarrow> Inl e
            | Inr move_forward \<Rightarrow>
                (let valid_moves = (if is_square_open g move_forward then [move_forward] else [])
                 in if init_move self = Some True then
                      (let forward_move1 = start_row - (2 * direction)
                       in if 8 > forward_move1 \<and> forward_move1 \<ge> 0 then
                            (case index_to_coord start_col forward_move1 of
                               Inl e \<Rightarrow> Inl e
                             | Inr forward_move1 \<Rightarrow>
                                 Inr (if is_square_open g forward_move1
                                      then valid_moves @ [forward_move1] else valid_moves))
                          else Inr valid_moves)
                    else Inr valid_moves))
         else Inr [])"

text \<open>The loop \<open>for diagonal in [-1, 1]\<close>; \<open>forward_reg\<close> is not tested against the board.\<close>

fun Pawn_captures ::
  "game \<Rightarrow> piece \<Rightarrow> int \<Rightarrow> int \<Rightarrow> int list \<Rightarrow> string list \<Rightarrow> error + string list" where
  "Pawn_captures g self start_col forward_reg [] valid_moves = Inr valid_moves"
| "Pawn_captures g self start_col forward_reg (diagonal # rest) valid_moves =
     (let cap_col = start_col + diagonal
      in if 0 \<le> cap_col \<and> cap_col < 8 then
           (case index_to_coord cap_col forward_reg of
              Inl e \<Rightarrow> Inl e
            | Inr cap_pos \<Rightarrow>
                Pawn_captures g self start_col forward_reg rest
                  (if is_opponent g cap_pos (color self)
                   then valid_moves @ [cap_pos] else valid_moves))
         else Pawn_captures g self start_col forward_reg rest valid_moves)"

definition Pawn_valid_moves :: "game \<Rightarrow> piece \<Rightarrow> error + string list" where
  "Pawn_valid_moves g self =
     (case coord_to_index (position self) of
        Inl e \<Rightarrow> Inl e
      | Inr (start_col, start_row) \<Rightarrow>
          (let direction = (if color self = ''WHITE'' then 1 else - 1);
               forward_reg = start_row - direction
           in case Pawn_forward g self start_col start_row direction of
                Inl e \<Rightarrow> Inl e
              | Inr valid_moves \<Rightarrow>
                  Pawn_captures g self start_col forward_reg [- 1, 1] valid_moves))"

subsection \<open>Rook\<close>

text \<open>The inner loop \<open>for move in range(1, 8)\<close>: the only \<open>break\<close> is the bounds test.\<close>

fun Rook_moves ::
  "game \<Rightarrow> piece \<Rightarrow> int \<Rightarrow> int \<Rightarrow> int \<times> int \<Rightarrow> int list \<Rightarrow> string list \<Rightarrow> error + string list" where
  "Rook_moves g self start_col start_row d [] valid_moves = Inr valid_moves"
| "Rook_moves g self start_col start_row d (move # rest) valid_moves =
     (let to_col = start_col + (fst d * move);
          to_row = start_row + (snd d * move)
      in if \<not> (0 \<le> to_col \<and> to_col < 8 \<and> 0 \<le> to_row \<and> to_row < 8) then Inr valid_moves
         else
           (case index_to_coord to_col to_row of
              Inl e \<Rightarrow> Inl e
            | Inr next_pos \<Rightarrow>
                if is_square_open g next_pos then
                  Rook_moves g self start_col start_row d rest (valid_moves @ [next_pos])
                else if is_opponent g next_pos (color self) then
                  Rook_moves g self start_col start_row d rest (valid_moves @ [next_pos])
                else Rook_moves g self start_col start_row d rest valid_moves))"

fun Rook_directions ::
  "game \<Rightarrow> piece \<Rightarrow> int \<Rightarrow> int \<Rightarrow> (int \<times> int) list \<Rightarrow> string list \<Rightarrow> error + string list" where
  "Rook_directions g self start_col start_row [] valid_moves = Inr valid_moves"
| "Rook_directions g self start_col start_row (d # ds) valid_moves =
     (case Rook_moves g self start_col start_row d [1..7] valid_moves of
        Inl e \<Rightarrow> Inl e
      | Inr valid_moves \<Rightarrow> Rook_directions g self start_col start_row ds valid_moves)"

definition Rook_valid_moves :: "game \<Rightarrow> piece \<Rightarrow> error + string list" where
  "Rook_valid_moves g self =
     (case coord_to_index (position self) of
        Inl e \<Rightarrow> Inl e
      | Inr (start_col, start_row) \<Rightarrow>
          Rook_directions g self start_col start_row [(0, 1), (1, 0), (0, - 1), (- 1, 0)] [])"

subsection \<open>Knight and King\<close>

text \<open>\<open>Knight.valid_moves\<close> and \<open>King.valid_moves\<close> run the same loop body over their
  own list of offsets.\<close>

fun offset_moves ::
  "game \<Rightarrow> piece \<Rightarrow> int \<Rightarrow> int \<Rightarrow> (int \<times> int) list \<Rightarrow> string list \<Rightarrow> error + string list" where
  "offset_moves g self start_col start_row [] valid_moves = Inr valid_moves"
| "offset_moves g self start_col start_row (d # ds) valid_moves =
     (let to_col = start_col + fst d;
          to_row = start_row + snd d
      in if 0 \<le> to_col \<and> to_col < 8 \<and> 0 \<le> to_row \<and> to_row < 8 then
           (case index_to_coord to_col to_row of
              Inl e \<Rightarrow> Inl e
            | Inr pos \<Rightarrow>
                offset_moves g self start_col start_row ds
                  (if is_square_open g pos \<or> is_opponent g pos (color self)
                   then valid_moves @ [pos] else valid_moves))
         else offset_moves g self start_col start_row ds valid_moves)"

definition Knight_valid_moves :: "game \<Rightarrow> piece \<Rightarrow> error + string list" where
  "Knight_valid_moves g self =
     (case coord_to_index (position self) of
        Inl e \<Rightarrow> Inl e
      | Inr (start_col, start_row) \<Rightarrow>
          offset_moves g self start_col start_row
            [(2, 1), (1, 2), (- 1, 2), (- 2, 1), (- 2, - 1), (- 1, - 2), (1, - 2), (2, - 1)] [])"

definition King_valid_moves :: "game \<Rightarrow> piece \<Rightarrow> error + string list" where
  "King_valid_moves g self =
     (case coord_to_index (position self) of
        Inl e \<Rightarrow> Inl e
      | Inr (start_col, start_row) \<Rightarrow>
          offset_moves g self start_col start_row
            [(- 1, 0), (1, 0), (0, - 1), (0, 1), (- 1, - 1), (- 1, 1), (1, - 1), (1, 1)] [])"

subsection \<open>Bishop and Queen\<close>

text \<open>
  Both classes run the same \<open>while True\<close> loop, left only by the bounds test. A loop that
  does not return is the value \<open>None\<close>.
\<close>

partial_function (option) sweep_while ::
  "game \<Rightarrow> piece \<Rightarrow> int \<times> int \<Rightarrow> int \<Rightarrow> int \<Rightarrow> string list \<Rightarrow> (error + string list) option" where
  "sweep_while g self coords to_col to_row valid_moves =
     (let to_col = to_col + fst coords;
          to_row = to_row + snd coords
      in if \<not> (7 \<ge> to_col \<and> to_col \<ge> 0 \<and> 7 \<ge> to_row \<and> to_row \<ge> 0) then Some (Inr valid_moves)
         else
           (case index_to_coord to_col to_row of
              Inl e \<Rightarrow> Some (Inl e)
            | Inr target_pos \<Rightarrow>
                if is_square_open g target_pos then
                  sweep_while g self coords to_col to_row (valid_moves @ [target_pos])
                else if is_opponent g target_pos (color self) then
                  sweep_while g self coords to_col to_row (valid_moves @ [target_pos])
                else sweep_while g self coords to_col to_row valid_moves))"

declare sweep_while.simps [code]

fun sweep_directions ::
  "game \<Rightarrow> piece \<Rightarrow> int \<Rightarrow> int \<Rightarrow> (int \<times> int) list \<Rightarrow> string list \<Rightarrow> (error + string list) option" where
  "sweep_directions g self start_col start_row [] valid_moves = Some (Inr valid_moves)"
| "sweep_directions g self start_col start_row (coords # ds) valid_moves =
     (case sweep_while g self coords start_col start_row valid_moves of
        None \<Rightarrow> None
      | Some (Inl e) \<Rightarrow> Some (Inl e)
      | Some (Inr valid_moves) \<Rightarrow> sweep_directions g self start_col start_row ds valid_moves)"

definition Bishop_valid_moves :: "game \<Rightarrow> piece \<Rightarrow> (error + string list) option" where
  "Bishop_valid_moves g self =
     (case coord_to_index (position self) of
        Inl e \<Rightarrow> Some (Inl e)
      | Inr (start_col, start_row) \<Rightarrow>
          sweep_directions g self start_col start_row [(- 1, 1), (1, 1), (- 1, - 1), (1, - 1)] [])"

definition Queen_valid_moves :: "game \<Rightarrow> piece \<Rightarrow> (error + string list) option" where
  "Queen_valid_moves g self =
     (case coord_to_index (position self) of
        Inl e \<Rightarrow> Some (Inl e)
      | Inr (start_col, start_row) \<Rightarrow>
          sweep_directions g self start_col start_row
            [(- 1, 0), (1, 0), (0, - 1), (0, 1), (- 1, - 1), (- 1, 1), (1, - 1), (1, 1)] [])"

text \<open>Dispatch of \<open>piece.valid_moves()\<close> on the class of the piece.\<close>

definition valid_moves :: "game \<Rightarrow> piece \<Rightarrow> (error + string list) option" where
  "valid_moves g self =
     (case kind self of
        Pawn \<Rightarrow> Some (Pawn_valid_moves g self)
      | Rook \<Rightarrow> Some (Rook_valid_moves g self)
      | Knight \<Rightarrow> Some (Knight_valid_moves g self)
      | Bishop \<Rightarrow> Bishop_valid_moves g self
      | Queen \<Rightarrow> Queen_valid_moves g self
      | King \<Rightarrow> Some (King_valid_moves g self))"

subsection \<open>Game operations\<close>

text \<open>\<open>set_game_state\<close>: the result pairs what the call does (returns, or raises) with the
  game afterwards. The argument is modelled as a string.\<close>

definition set_game_state :: "game \<Rightarrow> string \<Rightarrow> (error + unit) \<times> game" where
  "set_game_state g game_state' =
     (let all_states = [''UNFINISHED'', ''WHITE_WON'', ''BLACK_WON'']
      in if game_state' \<in> set all_states then (Inr (), g\<lparr>game_state := game_state'\<rparr>)
         else (Inl InvalidStateError, g))"

definition toggle_turn :: "game \<Rightarrow> game" where
  "toggle_turn g =
     (if player_turn g = ''WHITE'' then g\<lparr>player_turn := ''BLACK''\<rparr>
      else g\<lparr>player_turn := ''WHITE''\<rparr>)"

text \<open>
  \<open>display_board\<close> prints, which the model leaves out, but it can raise: it converts every
  key of the dict and writes into an 8 by 8 list of lists, where an index outside -8..7 is
  an IndexError.
\<close>

fun display_board_items :: "(string \<times> piece) list \<Rightarrow> error + unit" where
  "display_board_items [] = Inr ()"
| "display_board_items ((position', piece) # rest) =
     (case coord_to_index position' of
        Inl e \<Rightarrow> Inl e
      | Inr (col, row) \<Rightarrow>
          if \<not> (- 8 \<le> row \<and> row < 8) then Inl IndexError
          else if \<not> (- 8 \<le> col \<and> col < 8) then Inl IndexError
          else display_board_items rest)"

definition display_board :: "game \<Rightarrow> error + unit" where
  "display_board g = display_board_items (init_pos g)"

text \<open>\<open>is_valid_move\<close>; \<open>None\<close> when the move generation does not return.\<close>

definition is_valid_move :: "game \<Rightarrow> int \<times> int \<Rightarrow> int \<times> int \<Rightarrow> (error + bool) option" where
  "is_valid_move g move_from move_to =
     (case get_piece g move_from of
        Inl e \<Rightarrow> Some (Inl e)
      | Inr None \<Rightarrow> Some (Inr False)
      | Inr (Some piece) \<Rightarrow>
          (case valid_moves g piece of
             None \<Rightarrow> None
           | Some (Inl e) \<Rightarrow> Some (Inl e)
           | Some (Inr moves) \<Rightarrow>
               (case index_to_coord (fst move_to) (snd move_to) of
                  Inl e \<Rightarrow> Some (Inl e)
                | Inr target_square \<Rightarrow>
                    if target_square \<notin> set moves then Some (Inr False)
                    else Some (Inr True))))"

text \<open>
  \<open>make_move\<close>: the result pairs what the call does (returns a bool, or raises) with the
  game afterwards, so a raise after the first assignment shows the game it leaves behind.
  The moved piece is the object found under the lower-cased origin, the key removed is the
  origin as converted. The two are one entry on every board whose keys are lower-case, so
  on every well-formed board; only there does a record per entry stand for the objects.
  \<open>apply_move\<close> is the part of \<open>make_move\<close> from the test for a captured king on.
\<close>

definition apply_move :: "game \<Rightarrow> piece \<Rightarrow> piece option \<Rightarrow> string \<Rightarrow> string \<Rightarrow> (error + bool) \<times> game" where
  "apply_move g piece target_piece from_square to_square =
     (let (r, g1) =
            (if map_option kind target_piece = Some King
             then set_game_state g (if color piece = ''WHITE'' then ''WHITE_WON'' else ''BLACK_WON'')
             else (Inr (), g))
      in case r of
           Inl e \<Rightarrow> (Inl e, g1)
         | Inr _ \<Rightarrow>
             if map_of (init_pos g1) from_square = None then (Inl KeyError, g1)
             else
               (let g2 = g1\<lparr>init_pos := AList.delete from_square (init_pos g1)\<rparr>;
                    piece' = piece\<lparr>position := to_square, init_move := Some False\<rparr>;
                    g3 = g2\<lparr>init_pos := AList.update to_square piece' (init_pos g2)\<rparr>
                in case display_board g3 of
                     Inl e \<Rightarrow> (Inl e, g3)
                   | Inr _ \<Rightarrow>
                       if game_state g3 = ''UNFINISHED'' then (Inr True, toggle_turn g3)
                       else (Inr True, g3)))"

definition make_move :: "game \<Rightarrow> int \<times> int \<Rightarrow> int \<times> int \<Rightarrow> ((error + bool) \<times> game) option" where
  "make_move g move_from move_to =
     (if game_state g \<noteq> ''UNFINISHED'' then Some (Inr False, g)
      else
        (case get_piece g move_from of
           Inl e \<Rightarrow> Some (Inl e, g)
         | Inr piece \<Rightarrow>
             (case get_piece g move_to of
                Inl e \<Rightarrow> Some (Inl e, g)
              | Inr target_piece \<Rightarrow>
                  (case piece of
                     None \<Rightarrow> Some (Inr False, g)
                   | Some piece \<Rightarrow>
                       if color piece \<noteq> player_turn g then Some (Inr False, g)
                       else
                         (case is_valid_move g move_from move_to of
                            None \<Rightarrow> None
                          | Some (Inl e) \<Rightarrow> Some (Inl e, g)
                          | Some (Inr False) \<Rightarrow> Some (Inr False, g)
                          | Some (Inr True) \<Rightarrow>
                              (case index_to_coord (fst move_from) (snd move_from) of
                                 Inl e \<Rightarrow> Some (Inl e, g)
                               | Inr from_square \<Rightarrow>
                                   (case index_to_coord (fst move_to) (snd move_to) of
                                      Inl e \<Rightarrow> Some (Inl e, g)
                                    | Inr to_square \<Rightarrow>
                                        Some (apply_move g piece target_piece
                                                from_square to_square))))))))"

text \<open>
  The invariant of the board that the program keeps: the keys are distinct squares of the
  board and every piece stands under its own position.
\<close>

definition wf_game :: "game \<Rightarrow> bool" where
  "wf_game g =
     (distinct (map fst (init_pos g)) \<and>
      list_all (\<lambda>(k, p). k \<in> set all_squares \<and> position p = k) (init_pos g))"

section \<open>Coordinate conversion\<close>

text \<open>Both conversions, run on each of the 64 squares.\<close>

lemma squares_roundtrip_list:
  "list_all (\<lambda>s. case coord_to_index s of Inl e \<Rightarrow> False
                 | Inr (c, r) \<Rightarrow> on_board c r \<and> index_to_coord c r = Inr s \<and> py_lower s = s)
     all_squares"
  by code_simp

lemma indices_roundtrip_list:
  "list_all (\<lambda>(c, r). case index_to_coord c r of Inl e \<Rightarrow> False
                 | Inr s \<Rightarrow> s \<in> set all_squares \<and> coord_to_index s = Inr (c, r))
     (List.product [0..7] [0..7])"
  by code_simp

lemma coord_of_square:
  assumes "s \<in> set all_squares"
  shows "\<exists>c r. coord_to_index s = Inr (c, r) \<and> on_board c r \<and>
           index_to_coord c r = Inr s \<and> py_lower s = s"
proof -
  from assms squares_roundtrip_list
  have "case coord_to_index s of Inl e \<Rightarrow> False
        | Inr (c, r) \<Rightarrow> on_board c r \<and> index_to_coord c r = Inr s \<and> py_lower s = s"
    by (simp add: list_all_iff)
  then show ?thesis
    by (cases "coord_to_index s") auto
qed

lemma square_of_index:
  assumes "on_board c r"
  shows "\<exists>s. index_to_coord c r = Inr s \<and> s \<in> set all_squares \<and> coord_to_index s = Inr (c, r)"
proof -
  have "(c, r) \<in> set (List.product [0..7] [0..7])"
    using assms by (auto simp: on_board_def)
  with indices_roundtrip_list
  have "case index_to_coord c r of Inl e \<Rightarrow> False
        | Inr s \<Rightarrow> s \<in> set all_squares \<and> coord_to_index s = Inr (c, r)"
    unfolding list_all_iff by fast
  then show ?thesis
    by (cases "index_to_coord c r") auto
qed

text \<open>
  C4. \<open>coord_to_index\<close> and \<open>index_to_coord\<close> are inverse to each other on the 64 squares:
  every square notation converts to indices inside 0..7 that convert back to the same
  notation, and every pair of indices inside 0..7 converts to a square notation that
  converts back to the same pair.
\<close>

theorem coord_index_inverse:
  "(\<forall>s \<in> set all_squares. \<exists>col row. 0 \<le> col \<and> col < 8 \<and> 0 \<le> row \<and> row < 8 \<and>
        coord_to_index s = Inr (col, row) \<and> index_to_coord col row = Inr s) \<and>
   (\<forall>col row. 0 \<le> col \<and> col < 8 \<and> 0 \<le> row \<and> row < 8 \<longrightarrow>
       (\<exists>s \<in> set all_squares. index_to_coord col row = Inr s \<and> coord_to_index s = Inr (col, row)))"
proof (intro conjI ballI allI impI)
  fix s assume "s \<in> set all_squares"
  from coord_of_square [OF this]
  show "\<exists>col row. 0 \<le> col \<and> col < 8 \<and> 0 \<le> row \<and> row < 8 \<and>
        coord_to_index s = Inr (col, row) \<and> index_to_coord col row = Inr s"
    unfolding on_board_def by blast
next
  fix col row :: int assume "0 \<le> col \<and> col < 8 \<and> 0 \<le> row \<and> row < 8"
  then have "on_board col row" by (simp add: on_board_def)
  from square_of_index [OF this]
  show "\<exists>s \<in> set all_squares. index_to_coord col row = Inr s \<and> coord_to_index s = Inr (col, row)"
    by blast
qed

theorem coord_index_inverse_witness:
  "''e2'' \<in> set all_squares \<and> coord_to_index ''e2'' = Inr (4, 6) \<and>
   index_to_coord 4 6 = Inr ''e2''"
proof -
  have m: "''e2'' \<in> set all_squares" by code_simp
  have c: "coord_to_index ''e2'' = Inr (4, 6)" by code_simp
  from coord_index_inverse m
  have "\<exists>col row. coord_to_index ''e2'' = Inr (col, row) \<and> index_to_coord col row = Inr ''e2''"
    by blast
  with m c show ?thesis by simp
qed

section \<open>The fresh game\<close>

text \<open>
  C5. A fresh game has 32 entries, outcome UNFINISHED and turn WHITE, and White's queen and
  king stand on d1 and e1; but the black king is put on d8 and the black queen on e8, the
  reverse of the starting position of chess (queen d8, king e8).
\<close>

theorem fresh_game_black_king_on_d8:
  "length (init_pos ChessGame) = 32 \<and>
   game_state ChessGame = ''UNFINISHED'' \<and> player_turn ChessGame = ''WHITE'' \<and>
   get_piece_notation ChessGame ''d8'' = Some (new_piece King ''BLACK'' ''d8'') \<and>
   get_piece_notation ChessGame ''e8'' = Some (new_piece Queen ''BLACK'' ''e8'') \<and>
   get_piece_notation ChessGame ''d1'' = Some (new_piece Queen ''WHITE'' ''d1'') \<and>
   get_piece_notation ChessGame ''e1'' = Some (new_piece King ''WHITE'' ''e1'')"
  by code_simp

section \<open>Sliding pieces\<close>

text \<open>
  C1. On the fresh board the rook on a1 has its own pawn on a2 directly in front of it, and
  its destinations are a3 to a8: the sweep goes on behind the first occupied square, over
  the own pawn on a2 and over the black pawn on a7. The bishop on c1 (behind b2 and d2) and
  the queen on d1 (behind d2, c2 and e2) do the same.
\<close>

theorem sweep_passes_occupied_square:
  "get_piece_notation ChessGame ''a1'' = Some (new_piece Rook ''WHITE'' ''a1'') \<and>
   \<not> is_square_open ChessGame ''a2'' \<and>
   valid_moves ChessGame (new_piece Rook ''WHITE'' ''a1'')
     = Some (Inr [''a3'', ''a4'', ''a5'', ''a6'', ''a7'', ''a8'']) \<and>
   get_piece_notation ChessGame ''c1'' = Some (new_piece Bishop ''WHITE'' ''c1'') \<and>
   \<not> is_square_open ChessGame ''b2'' \<and>
   valid_moves ChessGame (new_piece Bishop ''WHITE'' ''c1'')
     = Some (Inr [''a3'', ''e3'', ''f4'', ''g5'', ''h6'']) \<and>
   get_piece_notation ChessGame ''d1'' = Some (new_piece Queen ''WHITE'' ''d1'') \<and>
   \<not> is_square_open ChessGame ''d2'' \<and>
   valid_moves ChessGame (new_piece Queen ''WHITE'' ''d1'')
     = Some (Inr [''d3'', ''d4'', ''d5'', ''d6'', ''d7'', ''d8'', ''b3'', ''a4'',
                  ''f3'', ''g4'', ''h5''])"
  by code_simp

section \<open>The game state\<close>

text \<open>
  C9. \<open>set_game_state\<close> with a value that is none of UNFINISHED, WHITE\_WON, BLACK\_WON
  raises InvalidStateError and leaves the game as it was; with one of the three it
  returns and the game state is that value, nothing else changed.
\<close>

theorem set_game_state_checked:
  "(s \<notin> {''UNFINISHED'', ''WHITE_WON'', ''BLACK_WON''} \<longrightarrow>
      set_game_state g s = (Inl InvalidStateError, g)) \<and>
   (s \<in> {''UNFINISHED'', ''WHITE_WON'', ''BLACK_WON''} \<longrightarrow>
      set_game_state g s = (Inr (), g\<lparr>game_state := s\<rparr>))"
  by (simp add: set_game_state_def)

theorem set_game_state_checked_witness:
  "set_game_state ChessGame ''DRAW'' = (Inl InvalidStateError, ChessGame) \<and>
   set_game_state ChessGame ''BLACK_WON'' = (Inr (), ChessGame\<lparr>game_state := ''BLACK_WON''\<rparr>)"
  using set_game_state_checked [of "''DRAW''" ChessGame]
        set_game_state_checked [of "''BLACK_WON''" ChessGame]
  by simp

section \<open>What the move generators return\<close>

text \<open>Conversion of the indices a pawn can name: files 0..7, rows -1..8.\<close>

lemma index_table:
  "list_all (\<lambda>(c, r). case index_to_coord c r of Inl e \<Rightarrow> False
       | Inr s \<Rightarrow> py_lower s = s \<and> coord_to_index s = Inr (c, r) \<and>
                 (s \<in> set all_squares \<longleftrightarrow> on_board c r))
     (List.product [0..7] [- 1..8])"
  by code_simp

lemma index_near:
  assumes "0 \<le> c" "c < 8" "- 1 \<le> r" "r \<le> 8"
  shows "\<exists>s. index_to_coord c r = Inr s \<and> py_lower s = s \<and> coord_to_index s = Inr (c, r) \<and>
           (s \<in> set all_squares \<longleftrightarrow> on_board c r)"
proof -
  have "(c, r) \<in> set (List.product [0..7] [- 1..8])"
    using assms by auto
  with index_table
  have "case index_to_coord c r of Inl e \<Rightarrow> False
       | Inr s \<Rightarrow> py_lower s = s \<and> coord_to_index s = Inr (c, r) \<and>
                 (s \<in> set all_squares \<longleftrightarrow> on_board c r)"
    unfolding list_all_iff by fast
  then show ?thesis
    by (cases "index_to_coord c r") auto
qed

lemma Rook_moves_inv:
  assumes "\<forall>x \<in> set vm. Q x"
    and "\<And>m s. m \<in> set moves \<Longrightarrow> on_board (c + fst d * m) (r + snd d * m) \<Longrightarrow>
            index_to_coord (c + fst d * m) (r + snd d * m) = Inr s \<Longrightarrow> Q s"
  shows "\<exists>ms. Rook_moves g self c r d moves vm = Inr ms \<and> (\<forall>x \<in> set ms. Q x)"
  using assms
proof (induction moves arbitrary: vm)
  case Nil
  then show ?case by simp
next
  case (Cons m moves)
  have rest: "\<exists>ms. Rook_moves g self c r d moves vm' = Inr ms \<and> (\<forall>x \<in> set ms. Q x)"
    if "\<forall>x \<in> set vm'. Q x" for vm'
    by (rule Cons.IH [OF that]) (rule Cons.prems(2), simp_all)
  show ?case
  proof (cases "on_board (c + fst d * m) (r + snd d * m)")
    case False
    with Cons.prems(1) show ?thesis by (simp add: on_board_def Let_def)
  next
    case True
    from square_of_index [OF True] obtain s where
      s: "index_to_coord (c + fst d * m) (r + snd d * m) = Inr s" by blast
    have qs: "Q s" using Cons.prems(2) [of m s] True s by simp
    have a: "\<forall>x \<in> set (vm @ [s]). Q x" using Cons.prems(1) qs by simp
    from True have b: "0 \<le> c + fst d * m \<and> c + fst d * m < 8 \<and> 0 \<le> r + snd d * m \<and> r + snd d * m < 8"
      by (simp add: on_board_def)
    show ?thesis
      using rest [OF a] rest [OF Cons.prems(1)] b s by (simp add: Let_def)
  qed
qed

lemma Rook_directions_inv:
  assumes "\<forall>x \<in> set vm. Q x"
    and "\<And>d m s. d \<in> set ds \<Longrightarrow> m \<in> {1..7} \<Longrightarrow> on_board (c + fst d * m) (r + snd d * m) \<Longrightarrow>
            index_to_coord (c + fst d * m) (r + snd d * m) = Inr s \<Longrightarrow> Q s"
  shows "\<exists>ms. Rook_directions g self c r ds vm = Inr ms \<and> (\<forall>x \<in> set ms. Q x)"
  using assms
proof (induction ds arbitrary: vm)
  case Nil
  then show ?case by simp
next
  case (Cons d ds)
  have "\<exists>ms. Rook_moves g self c r d [1..7] vm = Inr ms \<and> (\<forall>x \<in> set ms. Q x)"
    by (rule Rook_moves_inv [OF Cons.prems(1)]) (rule Cons.prems(2), simp_all)
  then obtain ms where ms: "Rook_moves g self c r d [1..7] vm = Inr ms" "\<forall>x \<in> set ms. Q x"
    by blast
  have "\<exists>ms'. Rook_directions g self c r ds ms = Inr ms' \<and> (\<forall>x \<in> set ms'. Q x)"
    by (rule Cons.IH [OF ms(2)]) (rule Cons.prems(2), simp_all)
  with ms(1) show ?case by simp
qed

lemma offset_moves_inv:
  assumes "\<forall>x \<in> set vm. Q x"
    and "\<And>d s. d \<in> set ds \<Longrightarrow> on_board (c + fst d) (r + snd d) \<Longrightarrow>
            index_to_coord (c + fst d) (r + snd d) = Inr s \<Longrightarrow> Q s"
  shows "\<exists>ms. offset_moves g self c r ds vm = Inr ms \<and> (\<forall>x \<in> set ms. Q x)"
  using assms
proof (induction ds arbitrary: vm)
  case Nil
  then show ?case by simp
next
  case (Cons d ds)
  have rest: "\<exists>ms. offset_moves g self c r ds vm' = Inr ms \<and> (\<forall>x \<in> set ms. Q x)"
    if "\<forall>x \<in> set vm'. Q x" for vm'
    by (rule Cons.IH [OF that]) (rule Cons.prems(2), simp_all)
  show ?case
  proof (cases "on_board (c + fst d) (r + snd d)")
    case False
    then have "\<not> (0 \<le> c + fst d \<and> c + fst d < 8 \<and> 0 \<le> r + snd d \<and> r + snd d < 8)"
      by (simp add: on_board_def)
    with rest [OF Cons.prems(1)] show ?thesis by (auto simp: Let_def)
  next
    case True
    from square_of_index [OF True] obtain s where
      s: "index_to_coord (c + fst d) (r + snd d) = Inr s" by blast
    have qs: "Q s" using Cons.prems(2) [of d s] True s by simp
    have a: "\<forall>x \<in> set (vm @ [s]). Q x" using Cons.prems(1) qs by simp
    from True have b: "0 \<le> c + fst d \<and> c + fst d < 8 \<and> 0 \<le> r + snd d \<and> r + snd d < 8"
      by (simp add: on_board_def)
    show ?thesis
      using rest [OF a] rest [OF Cons.prems(1)] b s by (simp add: Let_def)
  qed
qed

text \<open>Each loop of the move generators returns, and what it adds satisfies a property
  that holds of every square the loop can name.\<close>

lemma sweep_while_inv:
  assumes dir: "dc \<in> {- 1, 0, 1}" "dr \<in> {- 1, 0, 1}" "(dc, dr) \<noteq> (0, 0)"
    and closure: "\<And>c' r' s. on_board c' r' \<Longrightarrow> dc * c0 + dr * r0 < dc * c' + dr * r' \<Longrightarrow>
            index_to_coord c' r' = Inr s \<Longrightarrow> Q s"
    and "\<forall>x \<in> set vm. Q x"
    and "dc * c0 + dr * r0 \<le> dc * col + dr * row"
  shows "\<exists>ms. sweep_while g self (dc, dr) col row vm = Some (Inr ms) \<and> (\<forall>x \<in> set ms. Q x)"
  using assms(5,6)
proof (induction "nat (15 - (dc * (col + dc) + dr * (row + dr)))" arbitrary: col row vm
       rule: less_induct)
  case less
  show ?case
  proof (cases "on_board (col + dc) (row + dr)")
    case False
    then have "\<not> (7 \<ge> col + dc \<and> col + dc \<ge> 0 \<and> 7 \<ge> row + dr \<and> row + dr \<ge> 0)"
      by (auto simp: on_board_def)
    with less.prems(1) show ?thesis
      by (subst sweep_while.simps) (auto simp: Let_def)
  next
    case True
    then have b: "7 \<ge> col + dc \<and> col + dc \<ge> 0 \<and> 7 \<ge> row + dr \<and> row + dr \<ge> 0"
      by (auto simp: on_board_def)
    from square_of_index [OF True] obtain s where
      s: "index_to_coord (col + dc) (row + dr) = Inr s" by blast
    have up: "dc * col + dr * row < dc * (col + dc) + dr * (row + dr)"
      using dir by auto
    have qs: "Q s"
      by (rule closure [OF True _ s]) (use up less.prems(2) in linarith)
    have small: "dc * (col + dc) + dr * (row + dr) \<le> 14"
      using dir b by auto
    have up2: "dc * (col + dc) + dr * (row + dr) < dc * (col + dc + dc) + dr * (row + dr + dr)"
      using dir by auto
    have m: "nat (15 - (dc * (col + dc + dc) + dr * (row + dr + dr)))
             < nat (15 - (dc * (col + dc) + dr * (row + dr)))"
      using small up2 by linarith
    have le: "dc * c0 + dr * r0 \<le> dc * (col + dc) + dr * (row + dr)"
      using up less.prems(2) by linarith
    have rest: "\<exists>ms. sweep_while g self (dc, dr) (col + dc) (row + dr) vm' = Some (Inr ms) \<and>
                  (\<forall>x \<in> set ms. Q x)"
      if "\<forall>x \<in> set vm'. Q x" for vm'
      by (rule less.hyps [OF m that le])
    have a: "\<forall>x \<in> set (vm @ [s]). Q x" using less.prems(1) qs by simp
    show ?thesis
      using rest [OF a] rest [OF less.prems(1)] b s
      by (subst sweep_while.simps) (simp add: Let_def)
  qed
qed

lemma sweep_directions_inv:
  assumes "\<forall>x \<in> set vm. Q x"
    and "\<forall>d \<in> set ds. fst d \<in> {- 1, 0, 1} \<and> snd d \<in> {- 1, 0, 1} \<and> d \<noteq> (0, 0)"
    and "\<And>c' r' s. on_board c' r' \<Longrightarrow> (c', r') \<noteq> (c, r) \<Longrightarrow>
            index_to_coord c' r' = Inr s \<Longrightarrow> Q s"
  shows "\<exists>ms. sweep_directions g self c r ds vm = Some (Inr ms) \<and> (\<forall>x \<in> set ms. Q x)"
  using assms(1,2)
proof (induction ds arbitrary: vm)
  case Nil
  then show ?case by simp
next
  case (Cons d ds)
  obtain dc dr where d: "d = (dc, dr)" by (cases d)
  from Cons.prems(2) d have dir: "dc \<in> {- 1, 0, 1}" "dr \<in> {- 1, 0, 1}" "(dc, dr) \<noteq> (0, 0)"
    by auto
  have "\<exists>ms. sweep_while g self (dc, dr) c r vm = Some (Inr ms) \<and> (\<forall>x \<in> set ms. Q x)"
  proof (rule sweep_while_inv [OF dir _ Cons.prems(1), of c r])
    fix c' r' s
    assume "on_board c' r'" "dc * c + dr * r < dc * c' + dr * r'" "index_to_coord c' r' = Inr s"
    moreover from this(2) have "(c', r') \<noteq> (c, r)" by auto
    ultimately show "Q s" using assms(3) by blast
  qed simp
  then obtain ms where ms: "sweep_while g self d c r vm = Some (Inr ms)" "\<forall>x \<in> set ms. Q x"
    using d by blast
  have "\<exists>ms'. sweep_directions g self c r ds ms = Some (Inr ms') \<and> (\<forall>x \<in> set ms'. Q x)"
    by (rule Cons.IH [OF ms(2)]) (use Cons.prems(2) in simp)
  with ms(1) show ?case by simp
qed

lemma Pawn_captures_inv:
  assumes "\<forall>x \<in> set vm. Q x"
    and "\<And>dg s. dg \<in> set ds \<Longrightarrow> 0 \<le> c + dg \<Longrightarrow> c + dg < 8 \<Longrightarrow>
            index_to_coord (c + dg) fr = Inr s \<Longrightarrow> is_opponent g s (color self) \<Longrightarrow> Q s"
    and "\<And>dg. dg \<in> set ds \<Longrightarrow> 0 \<le> c + dg \<Longrightarrow> c + dg < 8 \<Longrightarrow>
            \<exists>s. index_to_coord (c + dg) fr = Inr s"
  shows "\<exists>ms. Pawn_captures g self c fr ds vm = Inr ms \<and> (\<forall>x \<in> set ms. Q x)"
  using assms
proof (induction ds arbitrary: vm)
  case Nil
  then show ?case by simp
next
  case (Cons dg ds)
  have rest: "\<exists>ms. Pawn_captures g self c fr ds vm' = Inr ms \<and> (\<forall>x \<in> set ms. Q x)"
    if "\<forall>x \<in> set vm'. Q x" for vm'
    by (rule Cons.IH [OF that]) (rule Cons.prems(2), simp_all, rule Cons.prems(3), simp_all)
  show ?case
  proof (cases "0 \<le> c + dg \<and> c + dg < 8")
    case False
    with rest [OF Cons.prems(1)] show ?thesis by (auto simp: Let_def)
  next
    case True
    from Cons.prems(3) [of dg] True obtain s where
      s: "index_to_coord (c + dg) fr = Inr s" by auto
    have a: "\<forall>x \<in> set (vm @ [s]). Q x" if "is_opponent g s (color self)"
      using Cons.prems(1) Cons.prems(2) [of dg s] True s that by simp
    show ?thesis
    proof (cases "is_opponent g s (color self)")
      case True
      with rest [OF a [OF True]] \<open>0 \<le> c + dg \<and> c + dg < 8\<close> s show ?thesis
        by (simp add: Let_def)
    next
      case False
      with rest [OF Cons.prems(1)] \<open>0 \<le> c + dg \<and> c + dg < 8\<close> s show ?thesis
        by (simp add: Let_def)
    qed
  qed
qed

text \<open>On any board, a piece that stands on a square gets a list of destinations, none of
  them its own square, and all of them squares of the board when the board is well formed.\<close>

lemma other_square:
  assumes "coord_to_index p = Inr (c, r)" "on_board c' r'" "(c', r') \<noteq> (c, r)"
    "index_to_coord c' r' = Inr s"
  shows "s \<noteq> p \<and> s \<in> set all_squares"
  using square_of_index [OF assms(2)] assms by auto

lemma wf_game_key:
  assumes "wf_game g" "map_of (init_pos g) k = Some p"
  shows "k \<in> set all_squares \<and> position p = k"
proof -
  from assms(2) have "(k, p) \<in> set (init_pos g)" by (rule map_of_SomeD)
  with assms(1) show ?thesis by (auto simp: wf_game_def list_all_iff)
qed

lemma opponent_square:
  assumes "wf_game g" "is_opponent g s col" "py_lower s = s"
  shows "s \<in> set all_squares"
  using assms wf_game_key [of g s]
  by (auto simp: is_opponent_def get_piece_notation_def split: option.splits)

lemma Pawn_forward_inv:
  assumes "on_board c r" "dir = 1 \<or> dir = - 1"
    and closure: "\<And>c' r' s. on_board c' r' \<Longrightarrow> (c', r') \<noteq> (c, r) \<Longrightarrow>
            index_to_coord c' r' = Inr s \<Longrightarrow> Q s"
  shows "\<exists>ms. Pawn_forward g self c r dir = Inr ms \<and> (\<forall>x \<in> set ms. Q x)"
proof -
  have one: "\<exists>s. index_to_coord c rr = Inr s \<and> Q s" if "0 \<le> rr" "rr < 8" "rr \<noteq> r" for rr
  proof -
    have ob: "on_board c rr" using that assms(1) by (simp add: on_board_def)
    from square_of_index [OF ob] obtain s where "index_to_coord c rr = Inr s" by blast
    with closure [OF ob _ this] that(3) show ?thesis by auto
  qed
  have r1: "r - dir \<noteq> r" and r2: "r - 2 * dir \<noteq> r" using assms(2) by auto
  show ?thesis
  proof (cases "8 > r - dir \<and> r - dir \<ge> 0")
    case False
    then show ?thesis by (auto simp: Pawn_forward_def Let_def)
  next
    case True
    with one [OF _ _ r1] obtain s1 where s1: "index_to_coord c (r - dir) = Inr s1" "Q s1"
      by auto
    show ?thesis
    proof (cases "init_move self = Some True \<and> 8 > r - 2 * dir \<and> r - 2 * dir \<ge> 0")
      case False
      with True s1 show ?thesis by (auto simp: Pawn_forward_def Let_def)
    next
      case t: True
      with one [OF _ _ r2] obtain s2 where s2: "index_to_coord c (r - 2 * dir) = Inr s2" "Q s2"
        by auto
      with True t s1 show ?thesis by (auto simp: Pawn_forward_def Let_def)
    qed
  qed
qed

lemma valid_moves_props:
  assumes "position self \<in> set all_squares"
  shows "\<exists>ms. valid_moves g self = Some (Inr ms) \<and> position self \<notin> set ms \<and>
           (wf_game g \<longrightarrow> set ms \<subseteq> set all_squares)"
proof -
  define Q where "Q = (\<lambda>s. s \<noteq> position self \<and> (wf_game g \<longrightarrow> s \<in> set all_squares))"
  from coord_of_square [OF assms] obtain c r where
    cr: "coord_to_index (position self) = Inr (c, r)" and ob: "on_board c r" by blast
  have closure: "Q s" if "on_board c' r'" "(c', r') \<noteq> (c, r)" "index_to_coord c' r' = Inr s"
    for c' r' s
    using other_square [OF cr that] by (simp add: Q_def)
  have nil: "\<forall>x \<in> set ([] :: string list). Q x" by simp
  have fin: "\<exists>ms. res = Some (Inr ms) \<and> position self \<notin> set ms \<and>
           (wf_game g \<longrightarrow> set ms \<subseteq> set all_squares)"
    if "\<exists>ms. res = Some (Inr ms) \<and> (\<forall>x \<in> set ms. Q x)"
    for res :: "(error + string list) option"
    using that by (auto simp: Q_def)
  show ?thesis
  proof (cases "kind self")
    case Pawn
    define dir :: int where "dir = (if color self = ''WHITE'' then 1 else - 1)"
    have dir: "dir = 1 \<or> dir = - 1" by (simp add: dir_def)
    from Pawn_forward_inv [OF ob dir, of Q g self] closure obtain ms1 where
      ms1: "Pawn_forward g self c r dir = Inr ms1" "\<forall>x \<in> set ms1. Q x" by blast
    have fr: "- 1 \<le> r - dir" "r - dir \<le> 8" using ob dir by (auto simp: on_board_def)
    have "\<exists>ms. Pawn_captures g self c (r - dir) [- 1, 1] ms1 = Inr ms \<and> (\<forall>x \<in> set ms. Q x)"
    proof (rule Pawn_captures_inv [OF ms1(2)])
      fix dg s
      assume a: "dg \<in> set [- 1, 1]" "0 \<le> c + dg" "c + dg < 8"
        "index_to_coord (c + dg) (r - dir) = Inr s" "is_opponent g s (color self)"
      from index_near [OF a(2,3) fr] a(4) have s: "py_lower s = s"
        "coord_to_index s = Inr (c + dg, r - dir)" by auto
      from a(1) have "dg \<noteq> 0" by auto
      with s(2) cr have "s \<noteq> position self" by auto
      with opponent_square [OF _ a(5) s(1)] show "Q s" by (simp add: Q_def)
    next
      fix dg :: int
      assume a: "dg \<in> set [- 1, 1]" "0 \<le> c + dg" "c + dg < 8"
      from index_near [OF a(2,3) fr] show "\<exists>s. index_to_coord (c + dg) (r - dir) = Inr s"
        by blast
    qed
    with ms1(1) cr have "\<exists>ms. Some (Pawn_valid_moves g self) = Some (Inr ms) \<and> (\<forall>x \<in> set ms. Q x)"
      by (simp add: Pawn_valid_moves_def dir_def Let_def)
    from fin [OF this] Pawn show ?thesis by (simp add: valid_moves_def)
  next
    case Rook
    have "\<exists>ms. Rook_directions g self c r [(0, 1), (1, 0), (0, - 1), (- 1, 0)] [] = Inr ms \<and>
            (\<forall>x \<in> set ms. Q x)"
    proof (rule Rook_directions_inv [OF nil])
      fix d :: "int \<times> int" and m :: int and s
      assume a: "d \<in> set [(0, 1), (1, 0), (0, - 1), (- 1, 0)]" "m \<in> {1..7}"
        "on_board (c + fst d * m) (r + snd d * m)"
        "index_to_coord (c + fst d * m) (r + snd d * m) = Inr s"
      from a(1,2) have "(c + fst d * m, r + snd d * m) \<noteq> (c, r)" by auto
      from closure [OF a(3) this a(4)] show "Q s" .
    qed
    with cr have "\<exists>ms. Some (Rook_valid_moves g self) = Some (Inr ms) \<and> (\<forall>x \<in> set ms. Q x)"
      by (simp add: Rook_valid_moves_def)
    from fin [OF this] Rook show ?thesis by (simp add: valid_moves_def)
  next
    case Knight
    have "\<exists>ms. offset_moves g self c r
            [(2, 1), (1, 2), (- 1, 2), (- 2, 1), (- 2, - 1), (- 1, - 2), (1, - 2), (2, - 1)] []
            = Inr ms \<and> (\<forall>x \<in> set ms. Q x)"
    proof (rule offset_moves_inv [OF nil])
      fix d :: "int \<times> int" and s
      assume a: "d \<in> set [(2, 1), (1, 2), (- 1, 2), (- 2, 1), (- 2, - 1), (- 1, - 2), (1, - 2), (2, - 1)]"
        "on_board (c + fst d) (r + snd d)" "index_to_coord (c + fst d) (r + snd d) = Inr s"
      from a(1) have "(c + fst d, r + snd d) \<noteq> (c, r)" by auto
      from closure [OF a(2) this a(3)] show "Q s" .
    qed
    with cr have "\<exists>ms. Some (Knight_valid_moves g self) = Some (Inr ms) \<and> (\<forall>x \<in> set ms. Q x)"
      by (simp add: Knight_valid_moves_def)
    from fin [OF this] Knight show ?thesis by (simp add: valid_moves_def)
  next
    case King
    have "\<exists>ms. offset_moves g self c r
            [(- 1, 0), (1, 0), (0, - 1), (0, 1), (- 1, - 1), (- 1, 1), (1, - 1), (1, 1)] []
            = Inr ms \<and> (\<forall>x \<in> set ms. Q x)"
    proof (rule offset_moves_inv [OF nil])
      fix d :: "int \<times> int" and s
      assume a: "d \<in> set [(- 1, 0), (1, 0), (0, - 1), (0, 1), (- 1, - 1), (- 1, 1), (1, - 1), (1, 1)]"
        "on_board (c + fst d) (r + snd d)" "index_to_coord (c + fst d) (r + snd d) = Inr s"
      from a(1) have "(c + fst d, r + snd d) \<noteq> (c, r)" by auto
      from closure [OF a(2) this a(3)] show "Q s" .
    qed
    with cr have "\<exists>ms. Some (King_valid_moves g self) = Some (Inr ms) \<and> (\<forall>x \<in> set ms. Q x)"
      by (simp add: King_valid_moves_def)
    from fin [OF this] King show ?thesis by (simp add: valid_moves_def)
  next
    case Bishop
    have "\<exists>ms. sweep_directions g self c r [(- 1, 1), (1, 1), (- 1, - 1), (1, - 1)] []
            = Some (Inr ms) \<and> (\<forall>x \<in> set ms. Q x)"
      by (rule sweep_directions_inv [OF nil]) (simp, rule closure)
    with cr have "\<exists>ms. Bishop_valid_moves g self = Some (Inr ms) \<and> (\<forall>x \<in> set ms. Q x)"
      by (simp add: Bishop_valid_moves_def)
    from fin [OF this] Bishop show ?thesis by (simp add: valid_moves_def)
  next
    case Queen
    have "\<exists>ms. sweep_directions g self c r
            [(- 1, 0), (1, 0), (0, - 1), (0, 1), (- 1, - 1), (- 1, 1), (1, - 1), (1, 1)] []
            = Some (Inr ms) \<and> (\<forall>x \<in> set ms. Q x)"
      by (rule sweep_directions_inv [OF nil]) (simp, rule closure)
    with cr have "\<exists>ms. Queen_valid_moves g self = Some (Inr ms) \<and> (\<forall>x \<in> set ms. Q x)"
      by (simp add: Queen_valid_moves_def)
    from fin [OF this] Queen show ?thesis by (simp add: valid_moves_def)
  qed
qed

section \<open>Moves and the invariant of the board\<close>

lemma set_update_subset: "set (AList.update k v xs) \<subseteq> insert (k, v) (set xs)"
  by (induction xs) auto

lemma set_delete_subset: "set (AList.delete k xs) \<subseteq> set xs"
  by (induction xs) auto

lemma display_board_items_ok:
  assumes "\<forall>(k, p) \<in> set xs. k \<in> set all_squares"
  shows "display_board_items xs = Inr ()"
  using assms
proof (induction xs)
  case Nil
  then show ?case by simp
next
  case (Cons x xs)
  obtain k p where x: "x = (k, p)" by (cases x)
  with Cons.prems have "k \<in> set all_squares" by simp
  from coord_of_square [OF this] obtain c r where
    "coord_to_index k = Inr (c, r)" "on_board c r" by blast
  with Cons x show ?case by (simp add: on_board_def)
qed

lemma wf_game_fields [simp]:
  "wf_game (g\<lparr>game_state := s\<rparr>) = wf_game g"
  "wf_game (g\<lparr>player_turn := t\<rparr>) = wf_game g"
  by (simp_all add: wf_game_def)

lemma wf_game_toggle [simp]: "wf_game (toggle_turn g) = wf_game g"
  by (simp add: toggle_turn_def)

lemma wf_game_move:
  assumes "wf_game g" "t \<in> set all_squares"
  shows "wf_game (g\<lparr>init_pos := AList.update t (p\<lparr>position := t, init_move := b\<rparr>)
                               (AList.delete f (init_pos g))\<rparr>)"
proof -
  have "distinct (map fst (AList.update t (p\<lparr>position := t, init_move := b\<rparr>)
                               (AList.delete f (init_pos g))))"
    using assms(1) by (simp add: wf_game_def distinct_update distinct_delete)
  moreover have "\<forall>(k, q) \<in> set (AList.update t (p\<lparr>position := t, init_move := b\<rparr>)
                               (AList.delete f (init_pos g))). k \<in> set all_squares \<and> position q = k"
    using assms set_update_subset [of t "p\<lparr>position := t, init_move := b\<rparr>" "AList.delete f (init_pos g)"]
      set_delete_subset [of f "init_pos g"]
    by (fastforce simp: wf_game_def list_all_iff)
  ultimately show ?thesis by (simp add: wf_game_def list_all_iff)
qed

text \<open>What an accepted \<open>apply_move\<close> has done.\<close>

lemma apply_move_True:
  assumes "apply_move g p tp f t = (Inr True, g')"
  shows "map_of (init_pos g) f \<noteq> None \<and>
         init_pos g' = AList.update t (p\<lparr>position := t, init_move := Some False\<rparr>)
                         (AList.delete f (init_pos g)) \<and>
         game_state g' = (if map_option kind tp = Some King
                          then (if color p = ''WHITE'' then ''WHITE_WON'' else ''BLACK_WON'')
                          else game_state g) \<and>
         player_turn g' = (if game_state g' = ''UNFINISHED''
                           then (if player_turn g = ''WHITE'' then ''BLACK'' else ''WHITE'')
                           else player_turn g)"
  using assms
  by (auto simp: apply_move_def set_game_state_def toggle_turn_def Let_def
           split: if_splits sum.splits prod.splits)

lemma apply_move_wf:
  assumes "wf_game g" "t \<in> set all_squares" "map_of (init_pos g) f \<noteq> None"
  shows "\<exists>g'. apply_move g p tp f t = (Inr True, g') \<and> wf_game g'"
proof -
  define s where "s = (if color p = ''WHITE'' then ''WHITE_WON'' else ''BLACK_WON'')"
  define g1 where "g1 = (if map_option kind tp = Some King then g\<lparr>game_state := s\<rparr> else g)"
  have g1: "(if map_option kind tp = Some King then set_game_state g s else (Inr (), g)) = (Inr (), g1)"
    by (auto simp: g1_def set_game_state_def s_def)
  have wf1: "wf_game g1" and ip: "init_pos g1 = init_pos g"
    using assms(1) by (simp_all add: g1_def)
  define g3 where "g3 = g1\<lparr>init_pos := AList.update t (p\<lparr>position := t, init_move := Some False\<rparr>)
                               (AList.delete f (init_pos g1))\<rparr>"
  have wf3: "wf_game g3" unfolding g3_def by (rule wf_game_move [OF wf1 assms(2)])
  then have "display_board g3 = Inr ()"
    unfolding display_board_def
    by (intro display_board_items_ok) (auto simp: wf_game_def list_all_iff)
  with g1 wf3 assms(3) ip show ?thesis
    unfolding apply_move_def s_def [symmetric]
    by (simp add: g3_def Let_def)
qed

text \<open>What \<open>make_move\<close> has gone through when it returns \<open>True\<close>.\<close>

lemma make_move_True:
  assumes "make_move g mf mt = Some (Inr True, g')"
  shows "\<exists>from_square to_square p ms.
           game_state g = ''UNFINISHED'' \<and>
           index_to_coord (fst mf) (snd mf) = Inr from_square \<and>
           index_to_coord (fst mt) (snd mt) = Inr to_square \<and>
           get_piece_notation g from_square = Some p \<and>
           color p = player_turn g \<and>
           valid_moves g p = Some (Inr ms) \<and> to_square \<in> set ms \<and>
           apply_move g p (get_piece_notation g to_square) from_square to_square = (Inr True, g')"
  using assms
  by (auto simp: make_move_def is_valid_move_def get_piece_def
           split: if_splits sum.splits option.splits bool.splits)

lemma make_move_rejects:
  assumes "index_to_coord (fst mf) (snd mf) = Inr from_square"
    "index_to_coord (fst mt) (snd mt) = Inr to_square"
    "get_piece_notation g from_square = None \<or>
     (\<exists>p. get_piece_notation g from_square = Some p \<and>
        (color p \<noteq> player_turn g \<or>
         (\<exists>ms. valid_moves g p = Some (Inr ms) \<and> to_square \<notin> set ms)))"
  shows "make_move g mf mt = Some (Inr False, g)"
  using assms
  by (auto simp: make_move_def is_valid_move_def get_piece_def)

section \<open>Rejected moves\<close>

text \<open>
  C8. \<open>make_move\<close> returns \<open>False\<close> and leaves the whole game as it was when the outcome
  is not UNFINISHED, and, for an origin and a destination that convert to notation, when
  the origin holds no piece, when the piece on the origin is not of the colour whose turn
  it is, or when the destination is not in the list of destinations of that piece.
\<close>

theorem make_move_rejects_unchanged:
  "(game_state g \<noteq> ''UNFINISHED'' \<longrightarrow> make_move g mf mt = Some (Inr False, g)) \<and>
   (index_to_coord (fst mf) (snd mf) = Inr from_square \<and>
    index_to_coord (fst mt) (snd mt) = Inr to_square \<and>
    (get_piece_notation g from_square = None \<or>
     (\<exists>p. get_piece_notation g from_square = Some p \<and>
        (color p \<noteq> player_turn g \<or>
         (\<exists>ms. valid_moves g p = Some (Inr ms) \<and> to_square \<notin> set ms))))
    \<longrightarrow> make_move g mf mt = Some (Inr False, g))"
proof (intro conjI impI)
  assume "game_state g \<noteq> ''UNFINISHED''"
  then show "make_move g mf mt = Some (Inr False, g)" by (simp add: make_move_def)
next
  assume "index_to_coord (fst mf) (snd mf) = Inr from_square \<and>
    index_to_coord (fst mt) (snd mt) = Inr to_square \<and>
    (get_piece_notation g from_square = None \<or>
     (\<exists>p. get_piece_notation g from_square = Some p \<and>
        (color p \<noteq> player_turn g \<or>
         (\<exists>ms. valid_moves g p = Some (Inr ms) \<and> to_square \<notin> set ms))))"
  then show "make_move g mf mt = Some (Inr False, g)"
    using make_move_rejects [of mf from_square mt to_square g] by blast
qed

theorem make_move_rejects_unchanged_witness:
  "make_move (ChessGame\<lparr>game_state := ''BLACK_WON''\<rparr>) (4, 6) (4, 4)
     = Some (Inr False, ChessGame\<lparr>game_state := ''BLACK_WON''\<rparr>) \<and>
   make_move ChessGame (4, 4) (4, 3) = Some (Inr False, ChessGame) \<and>
   make_move ChessGame (4, 1) (4, 2) = Some (Inr False, ChessGame) \<and>
   make_move ChessGame (4, 6) (4, 3) = Some (Inr False, ChessGame)"
proof -
  have fin: "game_state (ChessGame\<lparr>game_state := ''BLACK_WON''\<rparr>) \<noteq> ''UNFINISHED''" by simp
  have e4: "index_to_coord (fst (4, 4)) (snd (4, 4)) = Inr ''e4''"
    and e5: "index_to_coord (fst (4, 3)) (snd (4, 3)) = Inr ''e5''"
    and e7: "index_to_coord (fst (4, 1)) (snd (4, 1)) = Inr ''e7''"
    and e6: "index_to_coord (fst (4, 2)) (snd (4, 2)) = Inr ''e6''"
    and e2: "index_to_coord (fst (4, 6)) (snd (4, 6)) = Inr ''e2''"
    by code_simp+
  have empty: "get_piece_notation ChessGame ''e4'' = None" by code_simp
  have black: "get_piece_notation ChessGame ''e7'' = Some (new_Pawn ''BLACK'' ''e7'')"
    "color (new_Pawn ''BLACK'' ''e7'') \<noteq> player_turn ChessGame" by code_simp+
  have white: "get_piece_notation ChessGame ''e2'' = Some (new_Pawn ''WHITE'' ''e2'')"
    "valid_moves ChessGame (new_Pawn ''WHITE'' ''e2'') = Some (Inr [''e3'', ''e4''])"
    "''e5'' \<notin> set [''e3'', ''e4'']" by code_simp+
  show ?thesis
    using make_move_rejects_unchanged [of "ChessGame\<lparr>game_state := ''BLACK_WON''\<rparr>" "(4, 6)" "(4, 4)"] fin
      make_move_rejects_unchanged [of ChessGame "(4, 4)" "(4, 3)" "''e4''" "''e5''"] e4 e5 empty
      make_move_rejects_unchanged [of ChessGame "(4, 1)" "(4, 2)" "''e7''" "''e6''"] e7 e6 black
      make_move_rejects_unchanged [of ChessGame "(4, 6)" "(4, 3)" "''e2''" "''e5''"] e2 white
    by blast
qed

section \<open>The end of the game\<close>

text \<open>
  C2. Once the outcome is WHITE\_WON or BLACK\_WON, every call of \<open>make_move\<close> returns
  \<open>False\<close> and leaves the whole game, the outcome with it, as it was; so this holds of
  every later call too. An accepted move onto a square that held a king sets the outcome
  to the WON state of the colour of the moved piece, which is the colour whose turn it
  was, and the turn is not toggled.
\<close>

theorem outcome_is_final:
  "(game_state g = ''WHITE_WON'' \<or> game_state g = ''BLACK_WON''
      \<longrightarrow> make_move g mf mt = Some (Inr False, g)) \<and>
   (make_move g mf mt = Some (Inr True, g') \<and>
    index_to_coord (fst mt) (snd mt) = Inr to_square \<and>
    map_option kind (get_piece_notation g to_square) = Some King
      \<longrightarrow> (\<exists>from_square p. index_to_coord (fst mf) (snd mf) = Inr from_square \<and>
             get_piece_notation g from_square = Some p \<and> color p = player_turn g \<and>
             game_state g' = (if color p = ''WHITE'' then ''WHITE_WON'' else ''BLACK_WON'')) \<and>
          player_turn g' = player_turn g)"
proof (intro conjI impI)
  assume "game_state g = ''WHITE_WON'' \<or> game_state g = ''BLACK_WON''"
  then show "make_move g mf mt = Some (Inr False, g)" by (auto simp: make_move_def)
next
  assume a: "make_move g mf mt = Some (Inr True, g') \<and>
    index_to_coord (fst mt) (snd mt) = Inr to_square \<and>
    map_option kind (get_piece_notation g to_square) = Some King"
  from make_move_True [of g mf mt g'] a obtain from_square p where
    m: "index_to_coord (fst mf) (snd mf) = Inr from_square"
       "get_piece_notation g from_square = Some p" "color p = player_turn g"
       "apply_move g p (get_piece_notation g to_square) from_square to_square = (Inr True, g')"
    by auto
  from apply_move_True [OF m(4)] a
  have s: "game_state g' = (if color p = ''WHITE'' then ''WHITE_WON'' else ''BLACK_WON'')"
    and t: "player_turn g' = (if game_state g' = ''UNFINISHED''
                           then (if player_turn g = ''WHITE'' then ''BLACK'' else ''WHITE'')
                           else player_turn g)"
    by simp_all
  from s have "game_state g' \<noteq> ''UNFINISHED''" by simp
  with t show "player_turn g' = player_turn g" by simp
  from m s show "\<exists>from_square p. index_to_coord (fst mf) (snd mf) = Inr from_square \<and>
             get_piece_notation g from_square = Some p \<and> color p = player_turn g \<and>
             game_state g' = (if color p = ''WHITE'' then ''WHITE_WON'' else ''BLACK_WON'')"
    by blast
qed

theorem outcome_is_final_witness:
  "make_move (ChessGame\<lparr>game_state := ''WHITE_WON''\<rparr>) (4, 1) (4, 2)
     = Some (Inr False, ChessGame\<lparr>game_state := ''WHITE_WON''\<rparr>) \<and>
   (\<exists>g'. make_move ChessGame (3, 7) (3, 0) = Some (Inr True, g') \<and>
      game_state g' = ''WHITE_WON'' \<and> player_turn g' = ''WHITE'')"
proof -
  have fin: "game_state (ChessGame\<lparr>game_state := ''WHITE_WON''\<rparr>) = ''WHITE_WON''" by simp
  have "map_option fst (make_move ChessGame (3, 7) (3, 0)) = Some (Inr True)" by code_simp
  then obtain g' where g': "make_move ChessGame (3, 7) (3, 0) = Some (Inr True, g')"
    by (cases "make_move ChessGame (3, 7) (3, 0)") auto
  have d8: "index_to_coord (fst (3, 0)) (snd (3, 0)) = Inr ''d8''" by code_simp
  have king: "map_option kind (get_piece_notation ChessGame ''d8'') = Some King" by code_simp
  have w: "player_turn ChessGame = ''WHITE''" by code_simp
  from outcome_is_final [of ChessGame "(3, 7)" "(3, 0)" g' "''d8''"] g' d8 king w
  have "game_state g' = ''WHITE_WON'' \<and> player_turn g' = ''WHITE''" by auto
  with g' outcome_is_final [of "ChessGame\<lparr>game_state := ''WHITE_WON''\<rparr>" "(4, 1)" "(4, 2)"] fin
  show ?thesis by blast
qed

section \<open>The own square\<close>

text \<open>A piece found on a well-formed board stands on the lower-cased square asked for.\<close>

lemma wf_game_piece:
  assumes "wf_game g" "get_piece_notation g s = Some p"
  shows "position p = py_lower s \<and> py_lower s \<in> set all_squares"
  using wf_game_key [OF assms(1), of "py_lower s" p] assms(2)
  by (simp add: get_piece_notation_def)

text \<open>
  C10. On any board, a piece of any class that stands on a square gets a list of
  destinations and its own square is not in it. So, on a well-formed board, \<open>make_move\<close>
  with the same index pair as origin and destination, one that converts to notation,
  returns \<open>False\<close> and leaves the game as it was.
\<close>

theorem own_square_never_legal:
  "(position self \<in> set all_squares \<longrightarrow>
      (\<exists>ms. valid_moves g self = Some (Inr ms) \<and> position self \<notin> set ms)) \<and>
   (wf_game g \<and> index_to_coord (fst sq) (snd sq) = Inr s \<longrightarrow>
      make_move g sq sq = Some (Inr False, g))"
proof (intro conjI impI)
  assume "position self \<in> set all_squares"
  from valid_moves_props [OF this, of g]
  show "\<exists>ms. valid_moves g self = Some (Inr ms) \<and> position self \<notin> set ms" by blast
next
  assume a: "wf_game g \<and> index_to_coord (fst sq) (snd sq) = Inr s"
  show "make_move g sq sq = Some (Inr False, g)"
  proof (cases "get_piece_notation g s")
    case None
    with a make_move_rejects [of sq s sq s g] show ?thesis by simp
  next
    case (Some p)
    from wf_game_piece [of g s p] a Some
    have p: "position p = py_lower s" "py_lower s \<in> set all_squares" by simp_all
    from valid_moves_props [of p g] p a obtain ms where
      ms: "valid_moves g p = Some (Inr ms)" "position p \<notin> set ms" "set ms \<subseteq> set all_squares"
      by auto
    have "s \<notin> set ms"
    proof
      assume "s \<in> set ms"
      with ms(3) have "s \<in> set all_squares" by blast
      from coord_of_square [OF this] have "py_lower s = s" by blast
      with p(1) ms(2) \<open>s \<in> set ms\<close> show False by simp
    qed
    with a Some ms(1) make_move_rejects [of sq s sq s g] show ?thesis by blast
  qed
qed

theorem own_square_never_legal_witness:
  "position (new_piece Knight ''WHITE'' ''b1'') \<in> set all_squares \<and>
   wf_game ChessGame \<and>
   ''b1'' \<notin> set [''a3'', ''c3''] \<and>
   valid_moves ChessGame (new_piece Knight ''WHITE'' ''b1'') = Some (Inr [''a3'', ''c3'']) \<and>
   make_move ChessGame (1, 7) (1, 7) = Some (Inr False, ChessGame)"
proof -
  have sq: "position (new_piece Knight ''WHITE'' ''b1'') \<in> set all_squares" by code_simp
  have wf: "wf_game ChessGame" by code_simp
  have b1: "index_to_coord (fst (1, 7)) (snd (1, 7)) = Inr ''b1''" by code_simp
  have vm: "valid_moves ChessGame (new_piece Knight ''WHITE'' ''b1'') = Some (Inr [''a3'', ''c3''])"
    by code_simp
  from own_square_never_legal [of "new_piece Knight ''WHITE'' ''b1''" ChessGame "(1, 7)" "''b1''"]
    sq wf b1 vm
  show ?thesis by auto
qed

section \<open>Accepted moves\<close>

text \<open>
  C3. On a well-formed board, when \<open>make_move\<close> returns \<open>True\<close>: origin and destination
  are different squares, the origin held the moved piece and is empty afterwards, the
  destination holds that piece with its position set to the destination (and the
  first-move flag cleared), every other key of the board reads as before, the turn has
  changed exactly when the outcome is still UNFINISHED, to the other colour, and the board
  is well formed again.
\<close>

theorem accepted_move_effect:
  assumes "wf_game g" "make_move g mf mt = Some (Inr True, g')"
  shows "\<exists>from_square to_square p.
           index_to_coord (fst mf) (snd mf) = Inr from_square \<and>
           index_to_coord (fst mt) (snd mt) = Inr to_square \<and>
           from_square \<noteq> to_square \<and>
           map_of (init_pos g) from_square = Some p \<and>
           map_of (init_pos g') from_square = None \<and>
           map_of (init_pos g') to_square
             = Some (p\<lparr>position := to_square, init_move := Some False\<rparr>) \<and>
           (\<forall>k. k \<noteq> from_square \<and> k \<noteq> to_square
                 \<longrightarrow> map_of (init_pos g') k = map_of (init_pos g) k) \<and>
           (player_turn g' \<noteq> player_turn g \<longleftrightarrow> game_state g' = ''UNFINISHED'') \<and>
           (game_state g' = ''UNFINISHED''
              \<longrightarrow> player_turn g' = (if player_turn g = ''WHITE'' then ''BLACK'' else ''WHITE'')) \<and>
           wf_game g'"
proof -
  from make_move_True [OF assms(2)] obtain from_square to_square p ms where
    m: "index_to_coord (fst mf) (snd mf) = Inr from_square"
       "index_to_coord (fst mt) (snd mt) = Inr to_square"
       "get_piece_notation g from_square = Some p"
       "valid_moves g p = Some (Inr ms)" "to_square \<in> set ms"
       "apply_move g p (get_piece_notation g to_square) from_square to_square = (Inr True, g')"
    by blast
  from apply_move_True [OF m(6)]
  have key: "map_of (init_pos g) from_square \<noteq> None"
    and ip: "init_pos g' = AList.update to_square (p\<lparr>position := to_square, init_move := Some False\<rparr>)
                         (AList.delete from_square (init_pos g))"
    and t: "player_turn g' = (if game_state g' = ''UNFINISHED''
                           then (if player_turn g = ''WHITE'' then ''BLACK'' else ''WHITE'')
                           else player_turn g)"
    by simp_all
  from key obtain q where q: "map_of (init_pos g) from_square = Some q" by auto
  from wf_game_key [OF assms(1) q] have "from_square \<in> set all_squares" by simp
  from coord_of_square [OF this] have low: "py_lower from_square = from_square" by blast
  with m(3) q have pq: "map_of (init_pos g) from_square = Some p"
    by (simp add: get_piece_notation_def)
  from wf_game_key [OF assms(1) pq] have pos: "position p = from_square"
    "position p \<in> set all_squares" by simp_all
  from valid_moves_props [OF pos(2), of g] m(4) assms(1)
  have "position p \<notin> set ms" "set ms \<subseteq> set all_squares" by auto
  with m(5) pos(1) have ne: "from_square \<noteq> to_square" and tsq: "to_square \<in> set all_squares"
    by auto
  from apply_move_wf [OF assms(1) tsq key, of p "get_piece_notation g to_square"] m(6)
  have wf: "wf_game g'" by auto
  have a: "map_of (init_pos g') from_square = None"
    using ne by (simp add: ip update_conv' delete_conv')
  have b: "map_of (init_pos g') to_square
             = Some (p\<lparr>position := to_square, init_move := Some False\<rparr>)"
    by (simp add: ip update_conv')
  have c: "\<forall>k. k \<noteq> from_square \<and> k \<noteq> to_square
                 \<longrightarrow> map_of (init_pos g') k = map_of (init_pos g) k"
    by (simp add: ip update_conv' delete_conv')
  have d: "player_turn g' \<noteq> player_turn g \<longleftrightarrow> game_state g' = ''UNFINISHED''"
    using t by auto
  have e: "game_state g' = ''UNFINISHED''
              \<longrightarrow> player_turn g' = (if player_turn g = ''WHITE'' then ''BLACK'' else ''WHITE'')"
    using t by simp
  from m(1,2) ne pq a b c d e wf show ?thesis by blast
qed

theorem accepted_move_effect_witness:
  "wf_game ChessGame \<and>
   (\<exists>g'. make_move ChessGame (4, 6) (4, 4) = Some (Inr True, g') \<and>
      map_of (init_pos g') ''e2'' = None \<and>
      map_of (init_pos g') ''e4''
        = Some ((new_Pawn ''WHITE'' ''e2'')\<lparr>position := ''e4'', init_move := Some False\<rparr>) \<and>
      map_of (init_pos g') ''d2'' = map_of (init_pos ChessGame) ''d2'' \<and>
      wf_game g')"
proof -
  have wf: "wf_game ChessGame" by code_simp
  have "map_option fst (make_move ChessGame (4, 6) (4, 4)) = Some (Inr True)" by code_simp
  then obtain g' where g': "make_move ChessGame (4, 6) (4, 4) = Some (Inr True, g')"
    by (cases "make_move ChessGame (4, 6) (4, 4)") auto
  have e2: "index_to_coord (fst (4, 6)) (snd (4, 6)) = Inr ''e2''"
    and e4: "index_to_coord (fst (4, 4)) (snd (4, 4)) = Inr ''e4''" by code_simp+
  have p: "map_of (init_pos ChessGame) ''e2'' = Some (new_Pawn ''WHITE'' ''e2'')" by code_simp
  from accepted_move_effect [OF wf g'] e2 e4 p
  have "map_of (init_pos g') ''e2'' = None \<and>
      map_of (init_pos g') ''e4''
        = Some ((new_Pawn ''WHITE'' ''e2'')\<lparr>position := ''e4'', init_move := Some False\<rparr>) \<and>
      map_of (init_pos g') ''d2'' = map_of (init_pos ChessGame) ''d2'' \<and>
      wf_game g'"
    by auto
  with wf g' show ?thesis by blast
qed

section \<open>The double step of the pawn\<close>

lemma index_to_coord_col:
  assumes "index_to_coord c1 r1 = Inr s" "index_to_coord c2 r2 = Inr s"
  shows "c1 = c2"
proof -
  from assms have b: "0 \<le> c1 + 97" "c1 + 97 < 256" "0 \<le> c2 + 97" "c2 + 97 < 256"
    and e: "char_of (nat (c1 + 97)) = (char_of (nat (c2 + 97)) :: char)"
    by (auto simp: index_to_coord_def py_chr_def Let_def split: if_splits sum.splits)
  from b have "nat (c1 + 97) < 2 ^ 8" "nat (c2 + 97) < 2 ^ 8" by simp_all
  with e have "nat (c1 + 97) = nat (c2 + 97)"
    by (simp add: char_of_eq_iff take_bit_nat_eq_self)
  with b show ?thesis by simp
qed

lemma Pawn_captures_set:
  assumes "Pawn_captures g self c fr ds vm = Inr ms"
  shows "set vm \<subseteq> set ms \<and>
         (\<forall>x \<in> set ms. x \<in> set vm \<or> (\<exists>dg \<in> set ds. index_to_coord (c + dg) fr = Inr x))"
  using assms
proof (induction ds arbitrary: vm)
  case Nil
  then show ?case by simp
next
  case (Cons dg ds)
  show ?case
  proof (cases "0 \<le> c + dg \<and> c + dg < 8")
    case False
    with Cons.prems have "Pawn_captures g self c fr ds vm = Inr ms" by (auto simp: Let_def)
    from Cons.IH [OF this] show ?thesis by auto
  next
    case True
    with Cons.prems obtain s where s: "index_to_coord (c + dg) fr = Inr s"
      and r: "Pawn_captures g self c fr ds
                (if is_opponent g s (color self) then vm @ [s] else vm) = Inr ms"
      by (auto simp: Let_def split: sum.splits)
    from Cons.IH [OF r] s show ?thesis by (auto split: if_splits)
  qed
qed

lemma Pawn_forward_double:
  assumes "on_board c r" "d = 1 \<or> d = - 1" "index_to_coord c (r - 2 * d) = Inr s2"
    "Pawn_forward g self c r d = Inr ms1"
  shows "s2 \<in> set ms1 \<longleftrightarrow>
           init_move self = Some True \<and> 0 \<le> r - d \<and> r - d < 8 \<and>
           0 \<le> r - 2 * d \<and> r - 2 * d < 8 \<and> is_square_open g s2"
proof (cases "8 > r - d \<and> r - d \<ge> 0")
  case False
  with assms(4) show ?thesis by (auto simp: Pawn_forward_def Let_def)
next
  case True
  from assms(1) have c: "0 \<le> c" "c < 8" by (simp_all add: on_board_def)
  from True assms(2) have n1: "- 1 \<le> r - d" "r - d \<le> 8" and n2: "- 1 \<le> r - 2 * d" "r - 2 * d \<le> 8"
    by auto
  from index_near [OF c n1] obtain s1 where
    s1: "index_to_coord c (r - d) = Inr s1" "coord_to_index s1 = Inr (c, r - d)" by blast
  from index_near [OF c n2] assms(3) have "coord_to_index s2 = Inr (c, r - 2 * d)" by auto
  with s1(2) assms(2) have ne: "s1 \<noteq> s2" by auto
  from assms(4) True s1(1) assms(3) ne show ?thesis
    by (auto simp: Pawn_forward_def Let_def split: if_splits)
qed

text \<open>
  C7. For a pawn on a square of any board, the square two steps ahead is in its list of
  destinations exactly when its first-move flag is set, the squares one and two steps
  ahead are inside the board, and the square two steps ahead is open; what stands on the
  square in between plays no part. An accepted move leaves the moved piece on its
  destination with the flag cleared, and no entry of the board has a set flag that it did
  not have before; so for a pawn that has moved the double step is in no list again, on
  whatever board.
\<close>

theorem pawn_double_step:
  "(kind self = Pawn \<and> position self \<in> set all_squares \<and>
    coord_to_index (position self) = Inr (c, r) \<and>
    d = (if color self = ''WHITE'' then 1 else - 1) \<and>
    index_to_coord c (r - 2 * d) = Inr s2 \<and>
    valid_moves g self = Some (Inr ms)
    \<longrightarrow> (s2 \<in> set ms \<longleftrightarrow>
           init_move self = Some True \<and> 0 \<le> r - d \<and> r - d < 8 \<and>
           0 \<le> r - 2 * d \<and> r - 2 * d < 8 \<and> is_square_open g s2)) \<and>
   (make_move g mf mt = Some (Inr True, g') \<and>
    index_to_coord (fst mt) (snd mt) = Inr to_square
    \<longrightarrow> (\<exists>p'. map_of (init_pos g') to_square = Some p' \<and> init_move p' = Some False) \<and>
        (\<forall>(k, q) \<in> set (init_pos g'). init_move q = Some True \<longrightarrow> (k, q) \<in> set (init_pos g)))"
proof (intro conjI impI)
  assume a: "kind self = Pawn \<and> position self \<in> set all_squares \<and>
    coord_to_index (position self) = Inr (c, r) \<and>
    d = (if color self = ''WHITE'' then 1 else - 1) \<and>
    index_to_coord c (r - 2 * d) = Inr s2 \<and>
    valid_moves g self = Some (Inr ms)"
  then have d: "d = 1 \<or> d = - 1" by auto
  from a coord_of_square [of "position self"] have ob: "on_board c r" by auto
  from a have "Pawn_valid_moves g self = Inr ms" by (auto simp: valid_moves_def)
  with a obtain ms1 where f: "Pawn_forward g self c r d = Inr ms1"
    and cp: "Pawn_captures g self c (r - d) [- 1, 1] ms1 = Inr ms"
    by (auto simp: Pawn_valid_moves_def Let_def split: sum.splits)
  have "s2 \<in> set ms \<longleftrightarrow> s2 \<in> set ms1"
  proof
    assume "s2 \<in> set ms"
    with Pawn_captures_set [OF cp]
    have "s2 \<in> set ms1 \<or> (\<exists>dg \<in> set [- 1, 1]. index_to_coord (c + dg) (r - d) = Inr s2)"
      by blast
    moreover have "index_to_coord (c + dg) (r - d) \<noteq> Inr s2" if "dg \<in> set [- 1, 1]" for dg
    proof
      assume "index_to_coord (c + dg) (r - d) = Inr s2"
      from index_to_coord_col [OF this] a have "c + dg = c" by blast
      with that show False by auto
    qed
    ultimately show "s2 \<in> set ms1" by blast
  next
    assume "s2 \<in> set ms1"
    with Pawn_captures_set [OF cp] show "s2 \<in> set ms" by blast
  qed
  moreover from a have s2: "index_to_coord c (r - 2 * d) = Inr s2" by blast
  note Pawn_forward_double [OF ob d s2 f]
  ultimately show "s2 \<in> set ms \<longleftrightarrow>
           init_move self = Some True \<and> 0 \<le> r - d \<and> r - d < 8 \<and>
           0 \<le> r - 2 * d \<and> r - 2 * d < 8 \<and> is_square_open g s2"
    by blast
next
  assume a: "make_move g mf mt = Some (Inr True, g') \<and>
    index_to_coord (fst mt) (snd mt) = Inr to_square"
  from make_move_True [of g mf mt g'] a obtain from_square p where
    "apply_move g p (get_piece_notation g to_square) from_square to_square = (Inr True, g')"
    by auto
  from apply_move_True [OF this]
  have ip: "init_pos g' = AList.update to_square (p\<lparr>position := to_square, init_move := Some False\<rparr>)
                         (AList.delete from_square (init_pos g))"
    by simp
  have "map_of (init_pos g') to_square = Some (p\<lparr>position := to_square, init_move := Some False\<rparr>)"
    by (simp add: ip update_conv')
  then show "\<exists>p'. map_of (init_pos g') to_square = Some p' \<and> init_move p' = Some False"
    by simp
  show "\<forall>(k, q) \<in> set (init_pos g'). init_move q = Some True \<longrightarrow> (k, q) \<in> set (init_pos g)"
    using set_update_subset [of to_square "p\<lparr>position := to_square, init_move := Some False\<rparr>"
             "AList.delete from_square (init_pos g)"]
      set_delete_subset [of from_square "init_pos g"]
    unfolding ip by fastforce
qed

theorem pawn_double_step_witness:
  "\<not> is_square_open
       (ChessGame\<lparr>init_pos := AList.update ''e3'' (new_piece Knight ''BLACK'' ''e3'')
                                (init_pos ChessGame)\<rparr>) ''e3'' \<and>
   valid_moves
       (ChessGame\<lparr>init_pos := AList.update ''e3'' (new_piece Knight ''BLACK'' ''e3'')
                                (init_pos ChessGame)\<rparr>) (new_Pawn ''WHITE'' ''e2'')
     = Some (Inr [''e4'']) \<and>
   ''e4'' \<in> set [''e4''] \<and>
   init_move (new_Pawn ''WHITE'' ''e2'') = Some True \<and>
   (\<exists>g'. make_move ChessGame (4, 6) (4, 4) = Some (Inr True, g') \<and>
      (\<exists>p'. map_of (init_pos g') ''e4'' = Some p' \<and> init_move p' = Some False))"
proof -
  define gb where "gb = ChessGame\<lparr>init_pos := AList.update ''e3'' (new_piece Knight ''BLACK'' ''e3'')
                                (init_pos ChessGame)\<rparr>"
  have blocked: "\<not> is_square_open gb ''e3''" unfolding gb_def by code_simp
  have h: "kind (new_Pawn ''WHITE'' ''e2'') = Pawn"
    "position (new_Pawn ''WHITE'' ''e2'') \<in> set all_squares"
    "coord_to_index (position (new_Pawn ''WHITE'' ''e2'')) = Inr (4, 6)"
    "(1 :: int) = (if color (new_Pawn ''WHITE'' ''e2'') = ''WHITE'' then 1 else - 1)"
    "index_to_coord 4 (6 - 2 * 1) = Inr ''e4''"
    by code_simp+
  have vm: "valid_moves gb (new_Pawn ''WHITE'' ''e2'') = Some (Inr [''e4''])"
    unfolding gb_def by code_simp
  from pawn_double_step [of "new_Pawn ''WHITE'' ''e2''" 4 6 1 "''e4''" gb "[''e4'']"] h vm
  have one: "''e4'' \<in> set [''e4''] \<longleftrightarrow>
        init_move (new_Pawn ''WHITE'' ''e2'') = Some True \<and> (0 :: int) \<le> 6 - 1 \<and> (6 :: int) - 1 < 8 \<and>
           (0 :: int) \<le> 6 - 2 * 1 \<and> (6 :: int) - 2 * 1 < 8 \<and> is_square_open gb ''e4''"
    by blast
  have "map_option fst (make_move ChessGame (4, 6) (4, 4)) = Some (Inr True)" by code_simp
  then obtain g' where g': "make_move ChessGame (4, 6) (4, 4) = Some (Inr True, g')"
    by (cases "make_move ChessGame (4, 6) (4, 4)") auto
  have e4: "index_to_coord (fst (4, 4)) (snd (4, 4)) = Inr ''e4''" by code_simp
  from pawn_double_step [where g = ChessGame and mf = "(4, 6)" and mt = "(4, 4)" and g' = g'
      and to_square = "''e4''"] g' e4
  have two: "\<exists>p'. map_of (init_pos g') ''e4'' = Some p' \<and> init_move p' = Some False"
    by blast
  from one have "init_move (new_Pawn ''WHITE'' ''e2'') = Some True" by simp
  with blocked vm two g' show ?thesis unfolding gb_def by auto
qed

section \<open>The invariant holds throughout a game\<close>

lemma wf_game_ChessGame: "wf_game ChessGame"
  by code_simp

text \<open>On a well-formed board, \<open>make_move\<close> from a square of the board to an index pair
  that converts to notation returns a bool and leaves a well-formed board.\<close>

lemma make_move_returns:
  assumes "wf_game g" "on_board (fst mf) (snd mf)"
    "index_to_coord (fst mt) (snd mt) = Inr to_square"
  shows "\<exists>b g'. make_move g mf mt = Some (Inr b, g') \<and> wf_game g'"
proof -
  from square_of_index [OF assms(2)] obtain from_square where
    f: "index_to_coord (fst mf) (snd mf) = Inr from_square" "from_square \<in> set all_squares"
    by blast
  from coord_of_square [OF f(2)] have low: "py_lower from_square = from_square" by blast
  show ?thesis
  proof (cases "game_state g \<noteq> ''UNFINISHED'' \<or> get_piece_notation g from_square = None")
    case True
    with assms(1) make_move_rejects [OF f(1) assms(3), of g] show ?thesis
      by (auto simp: make_move_def)
  next
    case False
    then obtain p where p: "get_piece_notation g from_square = Some p"
      and u: "game_state g = ''UNFINISHED''" by auto
    from p low have key: "map_of (init_pos g) from_square \<noteq> None"
      by (simp add: get_piece_notation_def)
    from wf_game_piece [OF assms(1) p] have pos: "position p \<in> set all_squares" by simp
    from valid_moves_props [OF pos, of g] assms(1) obtain ms where
      ms: "valid_moves g p = Some (Inr ms)" "set ms \<subseteq> set all_squares"
      by auto
    show ?thesis
    proof (cases "color p \<noteq> player_turn g \<or> to_square \<notin> set ms")
      case True
      with p ms(1) assms(1) make_move_rejects [OF f(1) assms(3), of g] show ?thesis by blast
    next
      case False
      then have t: "to_square \<in> set ms" "color p = player_turn g" by auto
      with ms(2) have "to_square \<in> set all_squares" by blast
      from apply_move_wf [OF assms(1) this key, of p "get_piece_notation g to_square"]
      obtain g' where g': "apply_move g p (get_piece_notation g to_square) from_square to_square
                             = (Inr True, g')" "wf_game g'" by blast
      from u p t ms(1) f(1) assms(3) g'(1)
      have "make_move g mf mt = Some (Inr True, g')"
        by (simp add: make_move_def is_valid_move_def get_piece_def)
      with g'(2) show ?thesis by blast
    qed
  qed
qed

section \<open>Malformed notation\<close>



























end
